theory Spec2Isabelle
  imports Complex_Main "HOL-Library.Sublist"
begin

section \<open>Data model\<close>

text \<open>
  The service (\<open>ConfluenceRAGService\<close>) and the HTTP layer (\<open>server.ts\<close>) are modelled by
  explicit state passing. A JavaScript string is a \<open>string\<close>; one \<open>char\<close> stands for one
  code unit, so the model covers the code units below 256. A thrown \<open>Error\<close> is a value
  \<open>Error message\<close>, and a function that can throw returns \<open>error + 'a\<close>.
\<close>

datatype error = Error string

fun message_of :: "error \<Rightarrow> string" where
  "message_of (Error m) = m"

text \<open>A LangChain \<open>Document\<close>: \<open>pageContent\<close> and the metadata object built by the fetch.\<close>

record metadata =
  meta_id :: string
  meta_title :: string
  meta_url :: string
  meta_version :: "int option"
  meta_space :: "string option"

record document =
  pageContent :: string
  metadata :: metadata

text \<open>One entry of \<open>response.data.results\<close>; an absent optional chain is \<open>None\<close>.\<close>

record page =
  page_id :: string
  page_title :: string
  body_storage_value :: "string option"
  version_number :: "int option"
  space_name :: "string option"

text \<open>An element of \<open>chatHistory\<close>: \<open>{ role: string; content: string }\<close>.\<close>

record turn =
  role :: string
  content :: string

text \<open>What \<open>chain.call\<close> resolves to: \<open>result.text\<close> and the optional \<open>result.sourceDocuments\<close>.\<close>

record chain_result =
  result_text :: string
  sourceDocuments :: "document list option"

record source =
  title :: string
  url :: string
  excerpt :: string

record query_result =
  answer :: string
  sources :: "source list"

text \<open>
  The generation collaborator. A call receives the question and the formatted history;
  it reads and changes the outside world \<open>'w\<close> (network, model), and either throws or
  resolves.
\<close>

type_synonym 'w chain = "string \<Rightarrow> (string \<times> string) list \<Rightarrow> 'w \<Rightarrow> (error + chain_result) \<times> 'w"

record ('vs, 'w) service =
  vectorStore :: "'vs option"
  chain :: "'w chain option"
  chatHistory :: "turn list"
  world :: 'w

text \<open>The environment variables read by the fetch; an unset variable is \<open>None\<close>.\<close>

record env =
  CONFLUENCE_URL :: "string option"
  CONFLUENCE_USERNAME :: "string option"
  CONFLUENCE_API_TOKEN :: "string option"
  CONFLUENCE_SPACE_KEY :: "string option"

text \<open>
  The library calls of \<open>initialize\<close> are parameters: the HTTP GET of the content
  endpoint, \<open>MemoryVectorStore.fromDocuments\<close> and
  \<open>ConversationalRetrievalQAChain.fromLLM\<close>.
\<close>

record ('vs, 'w) collaborators =
  process_env :: env
  axios_get :: "'w \<Rightarrow> (error + page list) \<times> 'w"
  fromDocuments :: "document list \<Rightarrow> 'w \<Rightarrow> (error + 'vs) \<times> 'w"
  fromLLM :: "'vs \<Rightarrow> 'w chain"

section \<open>The normalizer: \<open>stripHtml\<close>\<close>

text \<open>
  The class \<open>\s\<close> of the regular expression and the characters removed by \<open>trim\<close>, among
  the code units below 256: tab, line feed, vertical tab, form feed, carriage return,
  space and the no-break space.
\<close>

definition isSpace :: "char \<Rightarrow> bool" where
  "isSpace c = (c = CHR 0x09 \<or> c = CHR 0x0A \<or> c = CHR 0x0B \<or> c = CHR 0x0C \<or> c = CHR 0x0D
      \<or> c = CHR 0x20 \<or> c = CHR 0xA0)"

text \<open>
  \<open>.replace(/<[^>]*>/g, ' ')\<close>: scanning from the left, a \<open><\<close> with a \<open>>\<close> somewhere
  after it matches up to the first such \<open>>\<close> and becomes one space; a \<open><\<close> with no
  \<open>>\<close> after it does not match and is kept.
\<close>

function stripTags :: "string \<Rightarrow> string" where
  "stripTags [] = []"
| "stripTags (c # cs) =
     (if c = CHR ''<'' \<and> CHR ''>'' \<in> set cs
      then CHR '' '' # stripTags (tl (dropWhile (\<lambda>x. x \<noteq> CHR ''>'') cs))
      else c # stripTags cs)"
  by pat_completeness auto
termination
proof (relation "measure length")
  fix c :: char and cs :: string
  have "length (tl (dropWhile (\<lambda>x. x \<noteq> CHR ''>'') cs)) \<le> length cs"
    using length_dropWhile_le [of "\<lambda>x. x \<noteq> CHR ''>''" cs] by simp
  then show "(tl (dropWhile (\<lambda>x. x \<noteq> CHR ''>'') cs), c # cs) \<in> measure length"
    by simp
qed simp_all

text \<open>
  \<open>.replace(/pat/g, rep)\<close> for a literal pattern: every occurrence found scanning from the
  left, without overlap, becomes \<open>rep\<close>. The source only uses non-empty patterns.
\<close>

function replaceAll :: "string \<Rightarrow> string \<Rightarrow> string \<Rightarrow> string" where
  "replaceAll pat rep [] = []"
| "replaceAll pat rep (c # cs) =
     (if pat \<noteq> [] \<and> prefix pat (c # cs)
      then rep @ replaceAll pat rep (drop (length pat) (c # cs))
      else c # replaceAll pat rep cs)"
  by pat_completeness auto
termination
  by (relation "measure (\<lambda>(pat, rep, s). length s)") (auto simp: neq_Nil_conv)

text \<open>\<open>.replace(/\s+/g, ' ')\<close>: every maximal run of whitespace becomes one space.\<close>

function collapseWs :: "string \<Rightarrow> string" where
  "collapseWs [] = []"
| "collapseWs (c # cs) =
     (if isSpace c then CHR '' '' # collapseWs (dropWhile isSpace cs)
      else c # collapseWs cs)"
  by pat_completeness auto
termination
proof (relation "measure length")
  fix c :: char and cs :: string
  show "(dropWhile isSpace cs, c # cs) \<in> measure length"
    using length_dropWhile_le [of isSpace cs] by simp
qed simp_all

text \<open>\<open>.trim()\<close>: whitespace removed at both ends.\<close>

definition trim :: "string \<Rightarrow> string" where
  "trim s = rev (dropWhile isSpace (rev (dropWhile isSpace s)))"

definition stripHtml :: "string \<Rightarrow> string" where
  "stripHtml html =
     trim (collapseWs
       (replaceAll ''&quot;'' [CHR 0x22]
         (replaceAll ''&gt;'' ''>''
           (replaceAll ''&lt;'' ''<''
             (replaceAll ''&amp;'' ''&''
               (replaceAll ''&nbsp;'' '' ''
                 (stripTags html)))))))"

text \<open>
  Whether a text contains a sequence (\<open>String.prototype.includes\<close>), used to state
  which sequences the normalized text holds.
\<close>

fun contains :: "string \<Rightarrow> string \<Rightarrow> bool" where
  "contains pat [] = (pat = [])"
| "contains pat (c # cs) = (prefix pat (c # cs) \<or> contains pat cs)"

text \<open>A run of two or more consecutive whitespace characters.\<close>

fun hasWsRun :: "string \<Rightarrow> bool" where
  "hasWsRun (a # b # cs) = ((isSpace a \<and> isSpace b) \<or> hasWsRun (b # cs))"
| "hasWsRun _ = False"

text \<open>
  A markup tag in the sense of the expression \<open><[^>]*>\<close>: a \<open><\<close> with a \<open>>\<close> somewhere
  after it.
\<close>

fun hasTag :: "string \<Rightarrow> bool" where
  "hasTag [] = False"
| "hasTag (c # cs) = ((c = CHR ''<'' \<and> CHR ''>'' \<in> set cs) \<or> hasTag cs)"

section \<open>Fetching the corpus and building the index\<close>

text \<open>\<open>!VAR\<close> on an environment variable: unset or empty.\<close>

fun missing :: "string option \<Rightarrow> bool" where
  "missing None = True"
| "missing (Some v) = (v = [])"

text \<open>The body of the \<open>for (const page of pages)\<close> loop: one document per page.\<close>

definition pageDocument :: "string \<Rightarrow> string \<Rightarrow> page \<Rightarrow> document" where
  "pageDocument confluence_url space_key p =
     (let htmlContent = (case body_storage_value p of None \<Rightarrow> '''' | Some v \<Rightarrow> v);
          textContent = stripHtml htmlContent
      in \<lparr>pageContent = textContent,
          metadata = \<lparr>meta_id = page_id p, meta_title = page_title p,
            meta_url = confluence_url @ ''/spaces/'' @ space_key @ ''/pages/'' @ page_id p,
            meta_version = version_number p, meta_space = space_name p\<rparr>\<rparr>)"

definition fetchConfluencePages ::
  "('vs, 'w) collaborators \<Rightarrow> 'w \<Rightarrow> (error + document list) \<times> 'w" where
  "fetchConfluencePages co w =
     (let e = process_env co in
      if missing (CONFLUENCE_URL e) \<or> missing (CONFLUENCE_USERNAME e)
         \<or> missing (CONFLUENCE_API_TOKEN e) \<or> missing (CONFLUENCE_SPACE_KEY e)
      then (Inl (Error ''Missing Confluence configuration''), w)
      else (case axios_get co w of
              (Inl err, w') \<Rightarrow> (Inl err, w')
            | (Inr pages, w') \<Rightarrow>
                (Inr (map (pageDocument (the (CONFLUENCE_URL e)) (the (CONFLUENCE_SPACE_KEY e)))
                        pages), w')))"

definition initialize ::
  "('vs, 'w) collaborators \<Rightarrow> ('vs, 'w) service \<Rightarrow> (error + unit) \<times> ('vs, 'w) service" where
  "initialize co svc =
     (case fetchConfluencePages co (world svc) of
        (Inl err, w1) \<Rightarrow> (Inl err, svc\<lparr>world := w1\<rparr>)
      | (Inr documents, w1) \<Rightarrow>
          if length documents = 0
          then (Inl (Error ''No documents found in Confluence space''), svc\<lparr>world := w1\<rparr>)
          else (case fromDocuments co documents w1 of
                  (Inl err, w2) \<Rightarrow> (Inl err, svc\<lparr>world := w2\<rparr>)
                | (Inr vs, w2) \<Rightarrow>
                    (Inr (), svc\<lparr>vectorStore := Some vs, chain := Some (fromLLM co vs),
                                world := w2\<rparr>)))"

section \<open>The answerer: \<open>query\<close> and \<open>clearHistory\<close>\<close>

text \<open>
  \<open>chatHistory.map((msg, idx) => ...).filter(pair => pair[0] !== '')\<close>: the element at
  an even index becomes \<open>[content, '']\<close>, the one at an odd index \<open>['', content]\<close>, and
  the pairs whose first component is empty are dropped.
\<close>

definition formatHistory :: "turn list \<Rightarrow> (string \<times> string) list" where
  "formatHistory h =
     filter (\<lambda>pair. fst pair \<noteq> '''')
       (map (\<lambda>(idx, msg). if idx mod 2 = 0 then (content msg, '''') else ('''', content msg))
            (enumerate 0 h))"

text \<open>\<open>xs.slice(-k)\<close>: the last \<open>k\<close> elements, all of them when there are fewer.\<close>

definition slice_last :: "nat \<Rightarrow> 'a list \<Rightarrow> 'a list" where
  "slice_last k xs = drop (length xs - k) xs"

definition updateHistory :: "turn list \<Rightarrow> string \<Rightarrow> string \<Rightarrow> turn list" where
  "updateHistory h question txt =
     (let h1 = h @ [\<lparr>role = ''user'', content = question\<rparr>];
          h2 = h1 @ [\<lparr>role = ''assistant'', content = txt\<rparr>]
      in if length h2 > 10 then slice_last 10 h2 else h2)"

definition sourceOf :: "document \<Rightarrow> source" where
  "sourceOf doc = \<lparr>title = meta_title (metadata doc), url = meta_url (metadata doc),
                   excerpt = take 200 (pageContent doc) @ ''...''\<rparr>"

definition query ::
  "('vs, 'w) service \<Rightarrow> string \<Rightarrow> (error + query_result) \<times> ('vs, 'w) service" where
  "query svc question =
     (case chain svc of
        None \<Rightarrow> (Inl (Error ''RAG system not initialized. Call initialize() first.''), svc)
      | Some ch \<Rightarrow>
          (case ch question (formatHistory (chatHistory svc)) (world svc) of
             (Inl err, w') \<Rightarrow> (Inl err, svc\<lparr>world := w'\<rparr>)
           | (Inr result, w') \<Rightarrow>
               (Inr \<lparr>answer = result_text result,
                     sources = (case sourceDocuments result of
                                  None \<Rightarrow> []
                                | Some docs \<Rightarrow> map sourceOf docs)\<rparr>,
                svc\<lparr>chatHistory := updateHistory (chatHistory svc) question (result_text result),
                    world := w'\<rparr>)))"

definition clearHistory :: "('vs, 'w) service \<Rightarrow> ('vs, 'w) service" where
  "clearHistory svc = svc\<lparr>chatHistory := []\<rparr>"

text \<open>The read-only view of the conversation used for formatting.\<close>

definition snapshot :: "('vs, 'w) service \<Rightarrow> turn list" where
  "snapshot svc = chatHistory svc"

text \<open>The service as constructed: no store, no chain, empty history.\<close>

definition newService :: "'w \<Rightarrow> ('vs, 'w) service" where
  "newService w = \<lparr>vectorStore = None, chain = None, chatHistory = [], world = w\<rparr>"

section \<open>The HTTP layer\<close>

datatype json =
    JNull
  | JBool bool
  | JNumber real
  | JString string
  | JArray "json list"
  | JObject "(string \<times> json) list"

text \<open>
  \<open>req.body\<close> after \<open>express.json()\<close> is the parsed object, here its list of members; a
  member given twice has its last value. \<open>None\<close> is \<open>undefined\<close>.
\<close>

record request =
  req_body :: "(string \<times> json) list"

record response =
  res_status :: nat
  res_body :: json

record ('vs, 'w) server =
  ragService :: "('vs, 'w) service"
  isInitialized :: bool
  initializationError :: "string option"

definition property :: "(string \<times> json) list \<Rightarrow> string \<Rightarrow> json option" where
  "property members k = map_of (rev members) k"

text \<open>\<open>!v\<close> is true on \<open>undefined\<close>, \<open>null\<close>, \<open>false\<close>, \<open>0\<close> and the empty string.\<close>

fun falsy :: "json option \<Rightarrow> bool" where
  "falsy None = True"
| "falsy (Some JNull) = True"
| "falsy (Some (JBool b)) = (\<not> b)"
| "falsy (Some (JNumber n)) = (n = 0)"
| "falsy (Some (JString s)) = (s = [])"
| "falsy (Some (JArray xs)) = False"
| "falsy (Some (JObject kvs)) = False"

fun typeof :: "json option \<Rightarrow> string" where
  "typeof None = ''undefined''"
| "typeof (Some JNull) = ''object''"
| "typeof (Some (JBool b)) = ''boolean''"
| "typeof (Some (JNumber n)) = ''number''"
| "typeof (Some (JString s)) = ''string''"
| "typeof (Some (JArray xs)) = ''object''"
| "typeof (Some (JObject kvs)) = ''object''"

fun jsonOpt :: "string option \<Rightarrow> json" where
  "jsonOpt None = JNull"
| "jsonOpt (Some s) = JString s"

definition sourceJson :: "source \<Rightarrow> json" where
  "sourceJson s = JObject [(''title'', JString (title s)), (''url'', JString (url s)),
                           (''excerpt'', JString (excerpt s))]"

text \<open>The startup block: \<open>initialize\<close>, then the flag or the recorded error message.\<close>

definition startup :: "('vs, 'w) collaborators \<Rightarrow> ('vs, 'w) server \<Rightarrow> ('vs, 'w) server" where
  "startup co srv =
     (case initialize co (ragService srv) of
        (Inr u, svc') \<Rightarrow> srv\<lparr>ragService := svc', isInitialized := True\<rparr>
      | (Inl err, svc') \<Rightarrow>
          srv\<lparr>ragService := svc', initializationError := Some (message_of err)\<rparr>)"

definition newServer :: "'w \<Rightarrow> ('vs, 'w) server" where
  "newServer w = \<lparr>ragService = newService w, isInitialized = False, initializationError = None\<rparr>"

text \<open>
  The handler of \<open>POST /api/chat\<close>; \<open>res.json\<close> without \<open>res.status\<close> answers 200. A
  message that passes the test is a string, so the last case is never reached.
\<close>

definition chatHandler ::
  "('vs, 'w) server \<Rightarrow> request \<Rightarrow> response \<times> ('vs, 'w) server" where
  "chatHandler srv req =
     (if \<not> isInitialized srv
      then (\<lparr>res_status = 503,
             res_body = JObject [(''error'', JString ''Service is still initializing. Please wait...''),
                                 (''initError'', jsonOpt (initializationError srv))]\<rparr>, srv)
      else
        (let message = property (req_body req) ''message'' in
         if falsy message \<or> typeof message \<noteq> ''string''
         then (\<lparr>res_status = 400,
                res_body = JObject [(''error'', JString ''Message is required'')]\<rparr>, srv)
         else
           (case message of
              Some (JString m) \<Rightarrow>
                (case query (ragService srv) m of
                   (Inr result, svc') \<Rightarrow>
                     (\<lparr>res_status = 200,
                       res_body = JObject [(''answer'', JString (answer result)),
                                           (''sources'', JArray (map sourceJson (sources result)))]\<rparr>,
                      srv\<lparr>ragService := svc'\<rparr>)
                 | (Inl err, svc') \<Rightarrow>
                     (\<lparr>res_status = 500,
                       res_body = JObject [(''error'',
                          JString (if message_of err \<noteq> [] then message_of err
                                   else ''Internal server error''))]\<rparr>,
                      srv\<lparr>ragService := svc'\<rparr>))
            | _ \<Rightarrow>
                (\<lparr>res_status = 400,
                  res_body = JObject [(''error'', JString ''Message is required'')]\<rparr>, srv))))"

text \<open>The handler of \<open>POST /api/clear\<close>.\<close>

definition clearHandler :: "('vs, 'w) server \<Rightarrow> response \<times> ('vs, 'w) server" where
  "clearHandler srv =
     (\<lparr>res_status = 200, res_body = JObject [(''message'', JString ''Chat history cleared'')]\<rparr>,
      srv\<lparr>ragService := clearHistory (ragService srv)\<rparr>)"

section \<open>Sequences of requests\<close>

text \<open>A request made to the service: a question, or a reset of the conversation.\<close>

datatype event = Ask string | Clear

fun step ::
  "('vs, 'w) service \<Rightarrow> event \<Rightarrow> (error + query_result) option \<times> ('vs, 'w) service" where
  "step svc (Ask question) = (case query svc question of (r, svc') \<Rightarrow> (Some r, svc'))"
| "step svc Clear = (None, clearHistory svc)"

fun run ::
  "('vs, 'w) service \<Rightarrow> event list \<Rightarrow> (error + query_result) option list \<times> ('vs, 'w) service" where
  "run svc [] = ([], svc)"
| "run svc (ev # evs) =
     (case step svc ev of (r, svc') \<Rightarrow> (case run svc' evs of (rs, svc'') \<Rightarrow> (r # rs, svc'')))"

text \<open>A query that resolved, and the answer it returned.\<close>

fun succeeded :: "(error + query_result) option \<Rightarrow> bool" where
  "succeeded (Some (Inr r)) = True"
| "succeeded _ = False"

fun answerOf :: "(error + query_result) option \<Rightarrow> string" where
  "answerOf (Some (Inr r)) = answer r"
| "answerOf _ = []"

text \<open>The two turns that a successful query pushes.\<close>

definition exchange :: "string \<Rightarrow> string \<Rightarrow> turn list" where
  "exchange question txt =
     [\<lparr>role = ''user'', content = question\<rparr>, \<lparr>role = ''assistant'', content = txt\<rparr>]"

fun exchanges :: "string list \<Rightarrow> string list \<Rightarrow> turn list" where
  "exchanges (q # qs) (a # as) = exchange q a @ exchanges qs as"
| "exchanges _ _ = []"

text \<open>No two consecutive turns with the same role.\<close>

fun alternates :: "turn list \<Rightarrow> bool" where
  "alternates (a # b # ts) = (role a \<noteq> role b \<and> alternates (b # ts))"
| "alternates _ = True"

text \<open>The history is a sequence of user turns each followed by an assistant turn.\<close>

fun paired :: "turn list \<Rightarrow> bool" where
  "paired [] = True"
| "paired [t] = False"
| "paired (u # a # ts) = (role u = ''user'' \<and> role a = ''assistant'' \<and> paired ts)"

text \<open>
  Two generation collaborators used as examples: one that always resolves with the
  same text and no source documents, one that always throws.
\<close>

definition answering :: "string \<Rightarrow> 'w chain" where
  "answering txt = (\<lambda>question history w. (Inr \<lparr>result_text = txt, sourceDocuments = None\<rparr>, w))"

definition throwing :: "string \<Rightarrow> 'w chain" where
  "throwing msg = (\<lambda>question history w. (Inl (Error msg), w))"

section \<open>Example collaborators\<close>

text \<open>Concrete services, pages and documents on which the results below are run.\<close>

definition citing :: "string \<Rightarrow> document list \<Rightarrow> 'w chain" where
  "citing txt docs =
     (\<lambda>question history w. (Inr \<lparr>result_text = txt, sourceDocuments = Some docs\<rparr>, w))"

definition readyService :: "unit chain \<Rightarrow> (unit, unit) service" where
  "readyService ch = \<lparr>vectorStore = Some (), chain = Some ch, chatHistory = [], world = ()\<rparr>"

definition okResult :: query_result where
  "okResult = \<lparr>answer = ''ok'', sources = []\<rparr>"

definition elevenQuestions :: "string list" where
  "elevenQuestions =
     [''q1'', ''q2'', ''q3'', ''q4'', ''q5'', ''q6'', ''q7'', ''q8'', ''q9'', ''q10'', ''q11'']"

definition exampleEnv :: env where
  "exampleEnv = \<lparr>CONFLUENCE_URL = Some ''https://wiki'', CONFLUENCE_USERNAME = Some ''u'',
                 CONFLUENCE_API_TOKEN = Some ''t'', CONFLUENCE_SPACE_KEY = Some ''DOC''\<rparr>"

text \<open>A vector store that is the list of the documents it was built from.\<close>

definition recording :: "page list \<Rightarrow> (document list, unit) collaborators" where
  "recording pages = \<lparr>process_env = exampleEnv, axios_get = (\<lambda>w. (Inr pages, w)),
     fromDocuments = (\<lambda>docs w. (Inr docs, w)), fromLLM = (\<lambda>vs. answering ''ok'')\<rparr>"

definition emptyPage :: page where
  "emptyPage = \<lparr>page_id = ''1'', page_title = ''Empty'',
                body_storage_value = Some ''<p>&nbsp;</p>'',
                version_number = Some 1, space_name = Some ''Docs''\<rparr>"

definition helloPage :: page where
  "helloPage = \<lparr>page_id = ''2'', page_title = ''Hello'',
                body_storage_value = Some ''<b>Hi</b>'',
                version_number = Some 3, space_name = Some ''Docs''\<rparr>"

text \<open>A document whose text has 50 characters.\<close>

definition shortDocument :: document where
  "shortDocument = \<lparr>pageContent = ''01234567890123456789012345678901234567890123456789'',
     metadata = \<lparr>meta_id = ''7'', meta_title = ''FAQ'',
                  meta_url = ''https://wiki/spaces/DOC/pages/7'',
                  meta_version = Some 1, meta_space = Some ''Docs''\<rparr>\<rparr>"

text \<open>A service whose generation collaborator throws, holding one earlier exchange.\<close>

definition brokenService :: "(unit, unit) service" where
  "brokenService = (readyService (throwing ''boom''))\<lparr>chatHistory := exchange ''q0'' ''a0''\<rparr>"

definition readyServer :: "(unit, unit) service \<Rightarrow> (unit, unit) server" where
  "readyServer svc = \<lparr>ragService = svc, isInitialized = True, initializationError = None\<rparr>"

definition chatRequest :: "json \<Rightarrow> request" where
  "chatRequest v = \<lparr>req_body = [(''message'', v)]\<rparr>"

text \<open>Collaborators whose fetch of the pages fails.\<close>

definition failingFetch :: "(unit, unit) collaborators" where
  "failingFetch = \<lparr>process_env = exampleEnv,
     axios_get = (\<lambda>w. (Inl (Error ''ECONNREFUSED''), w)),
     fromDocuments = (\<lambda>docs w. (Inr (), w)), fromLLM = (\<lambda>vs. answering ''ok'')\<rparr>"

section \<open>Properties of the history update\<close>

lemma slice_last_id: "length xs \<le> k \<Longrightarrow> slice_last k xs = xs"
  by (simp add: slice_last_def)

lemma length_slice_last: "length (slice_last k xs) \<le> k"
  by (simp add: slice_last_def)

lemma slice_last_slice_last: "slice_last k (slice_last k xs @ ys) = slice_last k (xs @ ys)"
proof (cases "length xs \<le> k")
  case True
  then show ?thesis by (simp add: slice_last_def)
next
  case False
  then have "length xs + length ys - (length xs - k + k) + (length xs - k)
      = length xs + length ys - k"
    by arith
  then show ?thesis using False by (simp add: slice_last_def)
qed

text \<open>The conditional truncation of \<open>query\<close> is the slice, whatever the length.\<close>

lemma updateHistory_slice: "updateHistory h q a = slice_last 10 (h @ exchange q a)"
  by (simp add: updateHistory_def exchange_def Let_def slice_last_def)

lemma length_updateHistory: "length (updateHistory h q a) \<le> 10"
  by (simp add: updateHistory_slice length_slice_last)

lemma paired_even: "paired h \<Longrightarrow> even (length h)"
  by (induction h rule: paired.induct) auto

lemma paired_append: "paired xs \<Longrightarrow> paired ys \<Longrightarrow> paired (xs @ ys)"
  by (induction xs rule: paired.induct) auto

lemma paired_drop2: "paired xs \<Longrightarrow> paired (drop 2 xs)"
  by (induction xs rule: paired.induct) (auto simp: numeral_2_eq_2)

lemma paired_drop_even: "paired xs \<Longrightarrow> paired (drop (2 * n) xs)"
proof (induction n arbitrary: xs)
  case 0
  then show ?case by simp
next
  case (Suc n)
  have split: "drop (2 * Suc n) xs = drop (2 * n) (drop 2 xs)"
    by (simp add: add.commute)
  have "paired (drop (2 * n) (drop 2 xs))"
    by (rule Suc.IH) (rule paired_drop2, rule Suc.prems)
  then show ?case by (simp only: split)
qed

lemma paired_slice_last:
  assumes "paired xs" and "even k"
  shows "paired (slice_last k xs)"
proof -
  have "even (length xs - k)" using paired_even [OF assms(1)] assms(2) by auto
  then obtain m where "length xs - k = 2 * m" by (rule evenE)
  then show ?thesis using paired_drop_even [OF assms(1), of m] by (simp add: slice_last_def)
qed

lemma paired_exchange: "paired (exchange q a)"
  by (simp add: exchange_def)

lemma paired_updateHistory: "paired h \<Longrightarrow> paired (updateHistory h q a)"
  by (simp add: updateHistory_slice paired_slice_last paired_append paired_exchange)

lemma paired_alternates: "paired xs \<Longrightarrow> alternates xs"
  by (induction xs rule: paired.induct) (auto elim: paired.elims)

text \<open>The three ways a query ends: no chain, the collaborator throws, it resolves.\<close>

lemma query_cases:
  "(chain svc = None
      \<and> query svc q = (Inl (Error ''RAG system not initialized. Call initialize() first.''), svc))
   \<or> (\<exists>ch err w'. chain svc = Some ch
         \<and> ch q (formatHistory (chatHistory svc)) (world svc) = (Inl err, w')
         \<and> query svc q = (Inl err, svc\<lparr>world := w'\<rparr>))
   \<or> (\<exists>ch result w'. chain svc = Some ch
         \<and> ch q (formatHistory (chatHistory svc)) (world svc) = (Inr result, w')
         \<and> query svc q =
             (Inr \<lparr>answer = result_text result,
                   sources = (case sourceDocuments result of
                                None \<Rightarrow> []
                              | Some docs \<Rightarrow> map sourceOf docs)\<rparr>,
              svc\<lparr>chatHistory := updateHistory (chatHistory svc) q (result_text result),
                  world := w'\<rparr>))"
  by (auto simp: query_def split: option.splits sum.splits prod.splits)

lemma query_history:
  "chatHistory (snd (query svc q)) =
     (case fst (query svc q) of
        Inl err \<Rightarrow> chatHistory svc
      | Inr r \<Rightarrow> updateHistory (chatHistory svc) q (answer r))"
  using query_cases [of svc q] by auto

lemma step_history:
  "chatHistory (snd (step svc ev)) =
     (case ev of
        Clear \<Rightarrow> []
      | Ask q \<Rightarrow> (case fst (query svc q) of
                    Inl err \<Rightarrow> chatHistory svc
                  | Inr r \<Rightarrow> updateHistory (chatHistory svc) q (answer r)))"
proof (cases ev)
  case (Ask q)
  then show ?thesis using query_history [of svc q] by (cases "query svc q") simp
next
  case Clear
  then show ?thesis by (simp add: clearHistory_def)
qed

lemma step_bounded:
  "length (chatHistory svc) \<le> 10 \<Longrightarrow> length (chatHistory (snd (step svc ev))) \<le> 10"
  by (simp add: step_history length_updateHistory split: event.splits sum.splits)

lemma step_paired:
  "paired (chatHistory svc) \<Longrightarrow> paired (chatHistory (snd (step svc ev)))"
  by (simp add: step_history paired_updateHistory split: event.splits sum.splits)

lemma run_snd_Cons: "snd (run svc (ev # evs)) = snd (run (snd (step svc ev)) evs)"
  by (simp split: prod.splits)

lemma run_fst_Cons:
  "fst (run svc (ev # evs)) = fst (step svc ev) # fst (run (snd (step svc ev)) evs)"
  by (simp split: prod.splits)

lemma run_length: "length (fst (run svc evs)) = length evs"
proof (induction evs arbitrary: svc)
  case Nil
  then show ?case by simp
next
  case (Cons ev evs)
  show ?case unfolding run_fst_Cons by (simp add: Cons.IH)
qed

lemma run_bounded:
  "length (chatHistory svc) \<le> 10 \<Longrightarrow> length (chatHistory (snd (run svc evs))) \<le> 10"
proof (induction evs arbitrary: svc)
  case Nil
  then show ?case by simp
next
  case (Cons ev evs)
  show ?case unfolding run_snd_Cons
    by (rule Cons.IH) (rule step_bounded, rule Cons.prems)
qed

lemma run_paired:
  "paired (chatHistory svc) \<Longrightarrow> paired (chatHistory (snd (run svc evs)))"
proof (induction evs arbitrary: svc)
  case Nil
  then show ?case by simp
next
  case (Cons ev evs)
  show ?case unfolding run_snd_Cons
    by (rule Cons.IH) (rule step_paired, rule Cons.prems)
qed

text \<open>
  A run of successful queries: the last ten turns of the history are the last ten of
  the old history followed by all the exchanges, and the history holds nothing else.
\<close>

lemma run_asks:
  "run svc (map Ask qs) = (rs, svc') \<Longrightarrow> list_all succeeded rs \<Longrightarrow>
   slice_last 10 (chatHistory svc')
     = slice_last 10 (chatHistory svc @ exchanges qs (map answerOf rs))
   \<and> (qs \<noteq> [] \<longrightarrow> length (chatHistory svc') \<le> 10)"
proof (induction qs arbitrary: svc rs svc')
  case Nil
  then show ?case by simp
next
  case (Cons q qs)
  obtain r svc1 where st: "step svc (Ask q) = (r, svc1)"
    by (cases "step svc (Ask q)")
  obtain rs1 svc2 where rn: "run svc1 (map Ask qs) = (rs1, svc2)"
    by (cases "run svc1 (map Ask qs)")
  from Cons.prems(1) st rn have rs: "rs = r # rs1" and svc': "svc' = svc2" by simp_all
  from Cons.prems(2) rs have ok: "succeeded r" and oks: "list_all succeeded rs1" by simp_all
  from ok obtain res where r: "r = Some (Inr res)" by (auto elim: succeeded.elims)
  from st r have q: "query svc q = (Inr res, svc1)" by (simp split: prod.splits)
  have h1: "chatHistory svc1 = slice_last 10 (chatHistory svc @ exchange q (answer res))"
    using query_history [of svc q] q by (simp add: updateHistory_slice)
  then have b1: "length (chatHistory svc1) \<le> 10" by (simp add: length_slice_last)
  have ih: "slice_last 10 (chatHistory svc2)
              = slice_last 10 (chatHistory svc1 @ exchanges qs (map answerOf rs1))
            \<and> (qs \<noteq> [] \<longrightarrow> length (chatHistory svc2) \<le> 10)"
    by (rule Cons.IH [OF rn oks])
  have "length (chatHistory svc2) \<le> 10"
  proof (cases qs)
    case Nil
    with rn b1 show ?thesis by simp
  next
    case (Cons a list)
    with ih show ?thesis by simp
  qed
  then show ?case using ih by (simp add: h1 slice_last_slice_last rs r svc')
qed

lemma length_exchanges: "length (exchanges qs as) = 2 * min (length qs) (length as)"
  by (induction qs as rule: exchanges.induct) (auto simp: exchange_def)

lemma drop_exchanges: "drop (2 * n) (exchanges qs as) = exchanges (drop n qs) (drop n as)"
proof (induction qs as arbitrary: n rule: exchanges.induct)
  case (1 q qs a as)
  then show ?case by (cases n) (auto simp: exchange_def)
qed auto

lemma users_exchanges:
  "length (filter (\<lambda>t. role t = ''user'') (exchanges qs as)) = min (length qs) (length as)"
  by (induction qs as rule: exchanges.induct) (auto simp: exchange_def)

lemma assistants_exchanges:
  "length (filter (\<lambda>t. role t = ''assistant'') (exchanges qs as)) = min (length qs) (length as)"
  by (induction qs as rule: exchanges.induct) (auto simp: exchange_def)

lemma eleven_asks:
  assumes "length qs = 11"
    and "run svc (map Ask qs) = (rs, svc')" and "list_all succeeded rs"
  shows "chatHistory svc' = exchanges (drop 6 qs) (drop 6 (map answerOf rs))"
proof -
  have len: "length rs = 11" using run_length [of svc "map Ask qs"] assms(1,2) by simp
  have ne: "qs \<noteq> []" using assms(1) by auto
  have b: "length (chatHistory svc') \<le> 10"
    using run_asks [OF assms(2,3)] ne by simp
  have "chatHistory svc' = slice_last 10 (chatHistory svc')"
    using slice_last_id [OF b] by simp
  also have "\<dots> = slice_last 10 (chatHistory svc @ exchanges qs (map answerOf rs))"
    using run_asks [OF assms(2,3)] by simp
  also have "\<dots> = drop (2 * 6) (exchanges qs (map answerOf rs))"
    by (simp add: slice_last_def length_exchanges len assms(1))
  also have "\<dots> = exchanges (drop 6 qs) (drop 6 (map answerOf rs))"
    by (rule drop_exchanges)
  finally show ?thesis .
qed

text \<open>Evaluating the example services.\<close>

lemma query_example:
  "query (readyService (answering ''ok'')) ''a''
     = (Inr okResult, (readyService (answering ''ok''))\<lparr>chatHistory := exchange ''a'' ''ok''\<rparr>)"
  by (simp add: readyService_def answering_def query_def updateHistory_def slice_last_def
        formatHistory_def exchange_def okResult_def)

lemma run_example:
  "run (readyService (answering ''ok'')) (map Ask elevenQuestions)
     = (map (\<lambda>q. Some (Inr okResult)) elevenQuestions,
        (readyService (answering ''ok''))\<lparr>chatHistory :=
           exchanges [''q7'', ''q8'', ''q9'', ''q10'', ''q11'']
                     [''ok'', ''ok'', ''ok'', ''ok'', ''ok'']\<rparr>)"
  by (simp add: readyService_def answering_def query_def updateHistory_def slice_last_def
        formatHistory_def enumerate_eq_zip exchange_def elevenQuestions_def okResult_def)

lemma stripHtml_emptyPage: "stripHtml ''<p>&nbsp;</p>'' = []"
  by (simp add: stripHtml_def trim_def isSpace_def)

section \<open>Properties of the normalizer\<close>

lemma contains_sublist: "contains pat s = sublist pat s"
  by (induction s) (auto simp: sublist_Cons_right)

lemma contains_mono: "contains pat t \<Longrightarrow> sublist t s \<Longrightarrow> contains pat s"
  unfolding contains_sublist by (rule sublist_order.order.trans)

lemma contains_append_fresh:
  "pat \<noteq> [] \<Longrightarrow> hd pat \<notin> set rep \<Longrightarrow> contains pat (rep @ r) = contains pat r"
  by (induction rep) (auto simp: prefix_Cons neq_Nil_conv)

lemma prefix_replaceAll:
  "rep \<noteq> [] \<Longrightarrow> set q \<inter> set rep = {} \<Longrightarrow> prefix q (replaceAll pat rep cs) \<Longrightarrow> prefix q cs"
proof (induction q arbitrary: cs)
  case Nil
  then show ?case by simp
next
  case (Cons r rs)
  show ?case
  proof (cases cs)
    case Nil
    with Cons.prems show ?thesis by simp
  next
    case (Cons d ds)
    show ?thesis
    proof (cases "pat \<noteq> [] \<and> prefix pat (d # ds)")
      case True
      with Cons.prems(3) Cons have "prefix (r # rs) (rep @ replaceAll pat rep (drop (length pat) (d # ds)))"
        by simp
      with Cons.prems(1) have "r = hd rep" by (cases rep) auto
      with Cons.prems(1,2) show ?thesis by (cases rep) auto
    next
      case False
      with Cons.prems(3) Cons have "prefix (r # rs) (d # replaceAll pat rep ds)" by auto
      then have "r = d" and "prefix rs (replaceAll pat rep ds)" by simp_all
      moreover have "set rs \<inter> set rep = {}" using Cons.prems(2) by auto
      ultimately show ?thesis using Cons.IH [of ds] Cons.prems(1) Cons by simp
    qed
  qed
qed

lemma replaceAll_removes:
  "pat \<noteq> [] \<Longrightarrow> rep \<noteq> [] \<Longrightarrow> set pat \<inter> set rep = {} \<Longrightarrow>
   \<not> contains pat (replaceAll pat rep s)"
proof (induction pat rep s rule: replaceAll.induct)
  case (1 pat rep)
  then show ?case by simp
next
  case (2 pat rep c cs)
  show ?case
  proof (cases "pat \<noteq> [] \<and> prefix pat (c # cs)")
    case True
    have fresh: "hd pat \<notin> set rep" using "2.prems"(1,3) by (cases pat) auto
    have "\<not> contains pat (replaceAll pat rep (drop (length pat) (c # cs)))"
      using "2.IH"(1) True "2.prems" by simp
    then show ?thesis using True contains_append_fresh [OF "2.prems"(1) fresh] by simp
  next
    case False
    have ih: "\<not> contains pat (replaceAll pat rep cs)"
      using "2.IH"(2) False "2.prems" by simp
    have "\<not> prefix pat (c # replaceAll pat rep cs)"
    proof
      assume p: "prefix pat (c # replaceAll pat rep cs)"
      obtain x xs where pat: "pat = x # xs" using "2.prems"(1) by (cases pat) auto
      from p pat have "x = c" and "prefix xs (replaceAll pat rep cs)" by auto
      moreover have "set xs \<inter> set rep = {}" using "2.prems"(3) pat by auto
      ultimately have "prefix xs cs" using prefix_replaceAll [OF "2.prems"(2)] by blast
      with \<open>x = c\<close> pat have "prefix pat (c # cs)" by simp
      with False "2.prems"(1) show False by simp
    qed
    moreover have "replaceAll pat rep (c # cs) = c # replaceAll pat rep cs"
      using False by auto
    ultimately show ?thesis using ih by simp
  qed
qed

lemma replaceAll_keeps_absent:
  "p \<noteq> [] \<Longrightarrow> rep \<noteq> [] \<Longrightarrow> set p \<inter> set rep = {} \<Longrightarrow>
   contains p (replaceAll pat rep s) \<Longrightarrow> contains p s"
proof (induction pat rep s rule: replaceAll.induct)
  case (1 pat rep)
  then show ?case by simp
next
  case (2 pat rep c cs)
  show ?case
  proof (cases "pat \<noteq> [] \<and> prefix pat (c # cs)")
    case True
    have fresh: "hd p \<notin> set rep" using "2.prems"(1,3) by (cases p) auto
    have "contains p (replaceAll pat rep (drop (length pat) (c # cs)))"
      using "2.prems"(4) True contains_append_fresh [OF "2.prems"(1) fresh] by simp
    then have "contains p (drop (length pat) (c # cs))"
      using "2.IH"(1) True "2.prems"(1-3) by simp
    then show ?thesis by (rule contains_mono) (rule sublist_drop)
  next
    case False
    with "2.prems"(4) have "prefix p (c # replaceAll pat rep cs) \<or> contains p (replaceAll pat rep cs)"
      by auto
    then show ?thesis
    proof
      assume pr: "prefix p (c # replaceAll pat rep cs)"
      obtain x xs where p: "p = x # xs" using "2.prems"(1) by (cases p) auto
      from pr p have "x = c" and "prefix xs (replaceAll pat rep cs)" by auto
      moreover have "set xs \<inter> set rep = {}" using "2.prems"(3) p by auto
      ultimately have "prefix xs cs" using prefix_replaceAll [OF "2.prems"(2)] by blast
      with \<open>x = c\<close> p show ?thesis by simp
    next
      assume "contains p (replaceAll pat rep cs)"
      then have "contains p cs" using "2.IH"(2) False "2.prems"(1-3) by simp
      then show ?thesis by simp
    qed
  qed
qed

lemma prefix_collapseWs:
  "\<forall>x \<in> set q. \<not> isSpace x \<Longrightarrow> prefix q (collapseWs cs) \<Longrightarrow> prefix q cs"
proof (induction q arbitrary: cs)
  case Nil
  then show ?case by simp
next
  case (Cons r rs)
  show ?case
  proof (cases cs)
    case Nil
    with Cons.prems show ?thesis by simp
  next
    case (Cons d ds)
    show ?thesis
    proof (cases "isSpace d")
      case True
      with Cons.prems(2) Cons have "r = CHR '' ''" by simp
      moreover have "isSpace (CHR '' '')" by (simp add: isSpace_def)
      ultimately show ?thesis using Cons.prems(1) by simp
    next
      case False
      with Cons.prems(2) Cons have "r = d" and "prefix rs (collapseWs ds)" by simp_all
      then show ?thesis using Cons.IH [of ds] Cons.prems(1) Cons by simp
    qed
  qed
qed

lemma collapseWs_keeps_absent:
  "p \<noteq> [] \<Longrightarrow> \<forall>x \<in> set p. \<not> isSpace x \<Longrightarrow> contains p (collapseWs s) \<Longrightarrow> contains p s"
proof (induction s rule: collapseWs.induct)
  case 1
  then show ?case by simp
next
  case (2 c cs)
  show ?case
  proof (cases "isSpace c")
    case True
    have sp: "isSpace (CHR '' '')" by (simp add: isSpace_def)
    have "\<not> prefix p (CHR '' '' # collapseWs (dropWhile isSpace cs))"
      using "2.prems"(1,2) sp by (cases p) auto
    with "2.prems"(3) True have "contains p (collapseWs (dropWhile isSpace cs))" by simp
    then have "contains p (dropWhile isSpace cs)" using "2.IH"(1) True "2.prems"(1,2) by simp
    then have "contains p cs" by (rule contains_mono) (rule sublist_dropWhile)
    then show ?thesis by simp
  next
    case False
    with "2.prems"(3) have "prefix p (c # collapseWs cs) \<or> contains p (collapseWs cs)" by simp
    then show ?thesis
    proof
      assume pr: "prefix p (c # collapseWs cs)"
      obtain x xs where p: "p = x # xs" using "2.prems"(1) by (cases p) auto
      from pr p have "x = c" and "prefix xs (collapseWs cs)" by auto
      moreover have "\<forall>x \<in> set xs. \<not> isSpace x" using "2.prems"(2) p by simp
      ultimately have "prefix xs cs" using prefix_collapseWs by blast
      with \<open>x = c\<close> p show ?thesis by simp
    next
      assume "contains p (collapseWs cs)"
      then have "contains p cs" using "2.IH"(2) False "2.prems"(1,2) by simp
      then show ?thesis by simp
    qed
  qed
qed

lemma sublist_trim: "sublist (trim s) s"
proof -
  have "sublist (rev (dropWhile isSpace (rev (dropWhile isSpace s)))) (dropWhile isSpace s)"
    by (simp add: sublist_rev_left)
  then show ?thesis unfolding trim_def
    by (rule sublist_order.order.trans) (rule sublist_dropWhile)
qed

lemma trim_keeps_absent: "contains p (trim s) \<Longrightarrow> contains p s"
  by (erule contains_mono) (rule sublist_trim)

lemma hasWsRun_Cons:
  "hasWsRun (a # xs) = ((xs \<noteq> [] \<and> isSpace a \<and> isSpace (hd xs)) \<or> hasWsRun xs)"
  by (cases xs) auto

lemma hasWsRun_sublist:
  "hasWsRun s = (\<exists>a b. isSpace a \<and> isSpace b \<and> sublist [a, b] s)"
proof (induction s rule: hasWsRun.induct)
  case (1 a b cs)
  then show ?case by (auto simp: sublist_Cons_right [of _ a])
qed (auto simp: sublist_Cons_right)

lemma hasWsRun_mono: "hasWsRun t \<Longrightarrow> sublist t s \<Longrightarrow> hasWsRun s"
  unfolding hasWsRun_sublist by (blast intro: sublist_order.order.trans)

lemma collapseWs_head:
  "collapseWs xs = y # ys \<Longrightarrow> isSpace y \<Longrightarrow> xs \<noteq> [] \<and> isSpace (hd xs)"
  by (cases xs) (auto split: if_splits)

lemma collapseWs_no_run: "\<not> hasWsRun (collapseWs s)"
proof (induction s rule: collapseWs.induct)
  case 1
  then show ?case by simp
next
  case (2 c cs)
  show ?case
  proof (cases "isSpace c")
    case True
    let ?d = "dropWhile isSpace cs"
    have ih: "\<not> hasWsRun (collapseWs ?d)" using "2.IH"(1) True by simp
    have "\<not> (collapseWs ?d \<noteq> [] \<and> isSpace (hd (collapseWs ?d)))"
    proof
      assume a: "collapseWs ?d \<noteq> [] \<and> isSpace (hd (collapseWs ?d))"
      then obtain y ys where y: "collapseWs ?d = y # ys" by (cases "collapseWs ?d") auto
      with a have "isSpace y" by simp
      with y have "?d \<noteq> [] \<and> isSpace (hd ?d)" by (rule collapseWs_head)
      then show False using hd_dropWhile [of isSpace cs] by simp
    qed
    with ih True show ?thesis by (simp add: hasWsRun_Cons)
  next
    case False
    with "2.IH"(2) show ?thesis by (simp add: hasWsRun_Cons)
  qed
qed

lemma set_stripTags: "x \<in> set (stripTags s) \<Longrightarrow> x = CHR '' '' \<or> x \<in> set s"
proof (induction s rule: stripTags.induct)
  case 1
  then show ?case by simp
next
  case (2 c cs)
  show ?case
  proof (cases "c = CHR ''<'' \<and> CHR ''>'' \<in> set cs")
    case True
    let ?r = "tl (dropWhile (\<lambda>x. x \<noteq> CHR ''>'') cs)"
    have sub: "set ?r \<subseteq> set cs"
      by (metis (no_types, lifting) list.sel(2) list.set_sel(2) set_dropWhileD subsetI)
    from "2.prems" True have "x = CHR '' '' \<or> x \<in> set (stripTags ?r)" by auto
    then show ?thesis using "2.IH"(1) True sub by auto
  next
    case False
    then have "stripTags (c # cs) = c # stripTags cs" by auto
    with "2.prems" have "x = c \<or> x \<in> set (stripTags cs)" by simp
    then show ?thesis using "2.IH"(2) False by auto
  qed
qed

lemma stripTags_no_tag: "\<not> hasTag (stripTags s)"
proof (induction s rule: stripTags.induct)
  case 1
  then show ?case by simp
next
  case (2 c cs)
  show ?case
  proof (cases "c = CHR ''<'' \<and> CHR ''>'' \<in> set cs")
    case True
    with "2.IH"(1) show ?thesis by simp
  next
    case False
    then have eq: "stripTags (c # cs) = c # stripTags cs" by auto
    have ih: "\<not> hasTag (stripTags cs)" using "2.IH"(2) False by simp
    have "\<not> (c = CHR ''<'' \<and> CHR ''>'' \<in> set (stripTags cs))"
      using False set_stripTags [of "CHR ''>''" cs] by auto
    with ih show ?thesis unfolding eq by simp
  qed
qed

section \<open>Formatting the history for the generation collaborator\<close>

text \<open>
  Whatever the history, every pair that \<open>formatHistory\<close> returns has an empty second
  component: the pairs built from the turns at odd indices are the ones filtered out.
\<close>

lemma formatHistory_answers_absent: "snd ` set (formatHistory h) \<subseteq> {[]}"
  by (auto simp: formatHistory_def split: if_splits)

text \<open>
  Claim C1. The formatted history should consist of pairs (prior question, prior answer),
  each user turn paired with the assistant answer that follows it. On the history left
  by one successful query, \<open>formatHistory\<close> returns the question paired with the empty
  string: the assistant's answer is not in the formatted history.
\<close>

theorem C1_history_answers_dropped:
  "formatHistory (exchange ''What is X?'' ''X is Y.'') = [(''What is X?'', '''')]
   \<and> formatHistory (exchange ''What is X?'' ''X is Y.'') \<noteq> [(''What is X?'', ''X is Y.'')]"
  by (simp add: formatHistory_def exchange_def enumerate_eq_zip)

section \<open>Source excerpts\<close>

text \<open>The marker is appended whatever the length of the text.\<close>

lemma excerpt_always_marked:
  "excerpt (sourceOf doc) = take 200 (pageContent doc) @ ''...''"
  by (simp add: sourceOf_def)

text \<open>
  Claim C2. The excerpt of a source should be the first 200 characters of the document's
  text, with a truncation marker only when the text is longer. For a retrieved document
  of 50 characters, \<open>query\<close> returns the whole text followed by the marker \<open>...\<close>.
\<close>

theorem C2_short_excerpt_marked:
  "length (pageContent shortDocument) = 50
   \<and> fst (query (readyService (citing ''ok'' [shortDocument])) ''hello'')
       = Inr \<lparr>answer = ''ok'',
              sources = [\<lparr>title = ''FAQ'', url = ''https://wiki/spaces/DOC/pages/7'',
                          excerpt = pageContent shortDocument @ ''...''\<rparr>]\<rparr>
   \<and> excerpt (sourceOf shortDocument) \<noteq> pageContent shortDocument"
  by (simp add: query_def readyService_def citing_def sourceOf_def shortDocument_def)

section \<open>Documents handed to the index build\<close>

text \<open>
  Claim C3, as stated, fails: a page whose normalized text is empty still yields a
  document, and \<open>initialize\<close> hands it to the index build. With a store that is the list
  of the documents it was built from, one fetched page with an empty body gives a store
  of one document, not fewer.
\<close>

theorem C3_counterexample:
  "pageContent (pageDocument ''https://wiki'' ''DOC'' emptyPage) = []
   \<and> initialize (recording [emptyPage]) (newService ())
       = (Inr (), \<lparr>vectorStore = Some [pageDocument ''https://wiki'' ''DOC'' emptyPage],
                   chain = Some (answering ''ok''), chatHistory = [], world = ()\<rparr>)
   \<and> \<not> length [pageDocument ''https://wiki'' ''DOC'' emptyPage] < length [emptyPage]"
  by (simp add: pageDocument_def emptyPage_def stripHtml_emptyPage initialize_def
      fetchConfluencePages_def recording_def exampleEnv_def newService_def Let_def)

text \<open>
  Claim C3, amended. When the configuration is complete and the fetch returns a
  non-empty list of pages, the index build receives exactly one document per fetched
  page, in order, whose text is the normalized body of that page, also when that text
  is empty; the number of documents handed to the build equals the number of pages, and
  the service keeps the store and the chain that the build returns.
\<close>

theorem C3_every_page_indexed:
  assumes "\<not> missing (CONFLUENCE_URL (process_env co))"
    and "\<not> missing (CONFLUENCE_USERNAME (process_env co))"
    and "\<not> missing (CONFLUENCE_API_TOKEN (process_env co))"
    and "\<not> missing (CONFLUENCE_SPACE_KEY (process_env co))"
    and "axios_get co (world svc) = (Inr pages, w1)"
    and "pages \<noteq> []"
    and "docs = map (pageDocument (the (CONFLUENCE_URL (process_env co)))
                                  (the (CONFLUENCE_SPACE_KEY (process_env co)))) pages"
    and "fromDocuments co docs w1 = (Inr vs, w2)"
  shows "fetchConfluencePages co (world svc) = (Inr docs, w1)
    \<and> initialize co svc
        = (Inr (), svc\<lparr>vectorStore := Some vs, chain := Some (fromLLM co vs), world := w2\<rparr>)
    \<and> length docs = length pages
    \<and> (\<forall>i < length pages. pageContent (docs ! i)
          = stripHtml (case body_storage_value (pages ! i) of None \<Rightarrow> [] | Some v \<Rightarrow> v))"
proof -
  have f: "fetchConfluencePages co (world svc) = (Inr docs, w1)"
    using assms(1-5,7) by (simp add: fetchConfluencePages_def Let_def)
  have i: "initialize co svc
        = (Inr (), svc\<lparr>vectorStore := Some vs, chain := Some (fromLLM co vs), world := w2\<rparr>)"
    using assms(6,7,8) by (simp add: initialize_def f)
  show ?thesis using f i assms(7) by (simp add: pageDocument_def Let_def)
qed

theorem C3_every_page_indexed_witness:
  "initialize (recording [emptyPage, helloPage]) (newService ())
       = (Inr (), \<lparr>vectorStore = Some (map (pageDocument ''https://wiki'' ''DOC'')
                                          [emptyPage, helloPage]),
                   chain = Some (answering ''ok''), chatHistory = [], world = ()\<rparr>)
   \<and> map pageContent (map (pageDocument ''https://wiki'' ''DOC'') [emptyPage, helloPage])
       = ['''', ''Hi'']"
  using C3_every_page_indexed [of "recording [emptyPage, helloPage]" "newService ()"
      "[emptyPage, helloPage]" "()"
      "map (pageDocument ''https://wiki'' ''DOC'') [emptyPage, helloPage]"
      "map (pageDocument ''https://wiki'' ''DOC'') [emptyPage, helloPage]" "()"]
  by (simp add: recording_def exampleEnv_def newService_def pageDocument_def emptyPage_def
        helloPage_def stripHtml_def trim_def isSpace_def Let_def)

section \<open>The normalized text\<close>

text \<open>
  Claim C4, as stated, fails: the entities are decoded after the tags are removed, so
  the text of a body that writes \<open>&lt;b&gt;\<close>, \<open>&amp;amp;\<close> and \<open>&amp;nbsp;\<close> holds the
  characters \<open><\<close> and \<open>>\<close> and the literal sequences \<open>&amp;\<close> and \<open>&nbsp;\<close>.
\<close>

theorem C4_counterexample:
  "stripHtml ''<p>Use &lt;b&gt; for bold, &amp;amp; for an ampersand and &amp;nbsp; for a space</p>''
     = ''Use <b> for bold, &amp; for an ampersand and &nbsp; for a space''
   \<and> CHR ''<'' \<in> set (stripHtml ''<p>Use &lt;b&gt; for bold, &amp;amp; for an ampersand and &amp;nbsp; for a space</p>'')
   \<and> CHR ''>'' \<in> set (stripHtml ''<p>Use &lt;b&gt; for bold, &amp;amp; for an ampersand and &amp;nbsp; for a space</p>'')
   \<and> contains ''&amp;'' (stripHtml ''<p>Use &lt;b&gt; for bold, &amp;amp; for an ampersand and &amp;nbsp; for a space</p>'')
   \<and> contains ''&nbsp;'' (stripHtml ''<p>Use &lt;b&gt; for bold, &amp;amp; for an ampersand and &amp;nbsp; for a space</p>'')"
proof -
  have e: "stripHtml ''<p>Use &lt;b&gt; for bold, &amp;amp; for an ampersand and &amp;nbsp; for a space</p>''
     = ''Use <b> for bold, &amp; for an ampersand and &nbsp; for a space''"
    by (simp add: stripHtml_def trim_def isSpace_def)
  show ?thesis unfolding e by simp
qed

text \<open>
  Claim C4, amended. For every raw body, the step that removes the tags leaves no
  \<open><\<close> with a \<open>>\<close> after it; the normalized text contains no literal \<open>&lt;\<close>,
  \<open>&gt;\<close> or \<open>&quot;\<close> sequence and no run of two or more consecutive whitespace
  characters.
\<close>

theorem C4_normalized_text:
  "\<not> hasTag (stripTags html)
   \<and> \<not> contains ''&lt;'' (stripHtml html)
   \<and> \<not> contains ''&gt;'' (stripHtml html)
   \<and> \<not> contains ''&quot;'' (stripHtml html)
   \<and> \<not> hasWsRun (stripHtml html)"
proof (intro conjI)
  let ?t0 = "stripTags html"
  let ?t1 = "replaceAll ''&nbsp;'' '' '' ?t0"
  let ?t2 = "replaceAll ''&amp;'' ''&'' ?t1"
  let ?t3 = "replaceAll ''&lt;'' ''<'' ?t2"
  let ?t4 = "replaceAll ''&gt;'' ''>'' ?t3"
  let ?t5 = "replaceAll ''&quot;'' [CHR 0x22] ?t4"
  have s: "stripHtml html = trim (collapseWs ?t5)" by (simp add: stripHtml_def)
  show "\<not> hasTag (stripTags html)" by (rule stripTags_no_tag)
  show "\<not> contains ''&lt;'' (stripHtml html)"
  proof
    assume "contains ''&lt;'' (stripHtml html)"
    then have "contains ''&lt;'' (collapseWs ?t5)" unfolding s by (rule trim_keeps_absent)
    then have "contains ''&lt;'' ?t5"
      using collapseWs_keeps_absent [of "''&lt;''" ?t5] by (simp add: isSpace_def)
    then have "contains ''&lt;'' ?t4"
      using replaceAll_keeps_absent [of "''&lt;''" "[CHR 0x22]" "''&quot;''" ?t4] by simp
    then have "contains ''&lt;'' ?t3"
      using replaceAll_keeps_absent [of "''&lt;''" "''>''" "''&gt;''" ?t3] by simp
    moreover have "\<not> contains ''&lt;'' ?t3" by (rule replaceAll_removes) simp_all
    ultimately show False by simp
  qed
  show "\<not> contains ''&gt;'' (stripHtml html)"
  proof
    assume "contains ''&gt;'' (stripHtml html)"
    then have "contains ''&gt;'' (collapseWs ?t5)" unfolding s by (rule trim_keeps_absent)
    then have "contains ''&gt;'' ?t5"
      using collapseWs_keeps_absent [of "''&gt;''" ?t5] by (simp add: isSpace_def)
    then have "contains ''&gt;'' ?t4"
      using replaceAll_keeps_absent [of "''&gt;''" "[CHR 0x22]" "''&quot;''" ?t4] by simp
    moreover have "\<not> contains ''&gt;'' ?t4" by (rule replaceAll_removes) simp_all
    ultimately show False by simp
  qed
  show "\<not> contains ''&quot;'' (stripHtml html)"
  proof
    assume "contains ''&quot;'' (stripHtml html)"
    then have "contains ''&quot;'' (collapseWs ?t5)" unfolding s by (rule trim_keeps_absent)
    then have "contains ''&quot;'' ?t5"
      using collapseWs_keeps_absent [of "''&quot;''" ?t5] by (simp add: isSpace_def)
    moreover have "\<not> contains ''&quot;'' ?t5" by (rule replaceAll_removes) simp_all
    ultimately show False by simp
  qed
  show "\<not> hasWsRun (stripHtml html)"
  proof
    assume "hasWsRun (stripHtml html)"
    then have "hasWsRun (collapseWs ?t5)" unfolding s by (rule hasWsRun_mono) (rule sublist_trim)
    then show False using collapseWs_no_run by simp
  qed
qed

theorem C4_normalized_text_witness:
  "stripHtml ''<p>Hello&nbsp;   <b>world</b> a &lt; b</p>  '' = ''Hello world a < b''
   \<and> \<not> hasTag (stripTags ''<p>Hello&nbsp;   <b>world</b> a &lt; b</p>  '')
   \<and> \<not> contains ''&lt;'' (stripHtml ''<p>Hello&nbsp;   <b>world</b> a &lt; b</p>  '')
   \<and> \<not> hasWsRun (stripHtml ''<p>Hello&nbsp;   <b>world</b> a &lt; b</p>  '')"
proof -
  have e: "stripHtml ''<p>Hello&nbsp;   <b>world</b> a &lt; b</p>  '' = ''Hello world a < b''"
    by (simp add: stripHtml_def trim_def isSpace_def)
  show ?thesis
    using C4_normalized_text [of "''<p>Hello&nbsp;   <b>world</b> a &lt; b</p>  ''"]
    unfolding e by (simp add: isSpace_def)
qed

section \<open>The bound on the history\<close>

text \<open>
  Claim C5. Whatever questions (answered or failed) and resets follow, a history of at
  most 10 turns stays at most 10 turns long, and the service starts with none. A
  successful query leaves the last 10 turns of the old history followed by the new user
  and assistant turns, so the oldest turns are the ones dropped. Eleven successive
  successful queries leave exactly 10 turns, 5 of role user and 5 of role assistant:
  the exchanges of the last five queries.
\<close>

theorem C5_history_bounded:
  "chatHistory (newService w :: ('vs, 'w) service) = []
   \<and> (length (chatHistory svc0) \<le> 10 \<longrightarrow> length (chatHistory (snd (run svc0 evs))) \<le> 10)
   \<and> (query svc q = (Inr r, svc1) \<longrightarrow>
        chatHistory svc1 = slice_last 10 (chatHistory svc @ exchange q (answer r)))
   \<and> (length qs = 11 \<and> run svc0 (map Ask qs) = (rs, svc11) \<and> list_all succeeded rs \<longrightarrow>
        length (chatHistory svc11) = 10
        \<and> length (filter (\<lambda>t. role t = ''user'') (chatHistory svc11)) = 5
        \<and> length (filter (\<lambda>t. role t = ''assistant'') (chatHistory svc11)) = 5
        \<and> chatHistory svc11 = exchanges (drop 6 qs) (drop 6 (map answerOf rs)))"
proof (intro conjI impI)
  show "chatHistory (newService w :: ('vs, 'w) service) = []"
    by (simp add: newService_def)
next
  assume "length (chatHistory svc0) \<le> 10"
  then show "length (chatHistory (snd (run svc0 evs))) \<le> 10"
    by (rule run_bounded)
next
  assume "query svc q = (Inr r, svc1)"
  then show "chatHistory svc1 = slice_last 10 (chatHistory svc @ exchange q (answer r))"
    using query_history [of svc q] by (simp add: updateHistory_slice)
next
  assume a: "length qs = 11 \<and> run svc0 (map Ask qs) = (rs, svc11) \<and> list_all succeeded rs"
  then have len: "length rs = 11" using run_length [of svc0 "map Ask qs"] by simp
  have h: "chatHistory svc11 = exchanges (drop 6 qs) (drop 6 (map answerOf rs))"
    using a eleven_asks [of qs svc0 rs svc11] by simp
  show "chatHistory svc11 = exchanges (drop 6 qs) (drop 6 (map answerOf rs))" by (rule h)
  show "length (chatHistory svc11) = 10"
    using a len by (simp add: h length_exchanges)
  show "length (filter (\<lambda>t. role t = ''user'') (chatHistory svc11)) = 5"
    using a len unfolding h users_exchanges by simp
  show "length (filter (\<lambda>t. role t = ''assistant'') (chatHistory svc11)) = 5"
    using a len unfolding h assistants_exchanges by simp
qed

theorem C5_history_bounded_witness:
  "length (chatHistory (readyService (answering ''ok''))) \<le> 10
   \<and> length (chatHistory (snd (run (readyService (answering ''ok''))
                                    [Ask ''a'', Clear, Ask ''b'']))) \<le> 10
   \<and> chatHistory (snd (query (readyService (answering ''ok'')) ''a'')) = exchange ''a'' ''ok''
   \<and> length elevenQuestions = 11
   \<and> list_all succeeded (fst (run (readyService (answering ''ok'')) (map Ask elevenQuestions)))
   \<and> chatHistory (snd (run (readyService (answering ''ok'')) (map Ask elevenQuestions)))
       = exchanges [''q7'', ''q8'', ''q9'', ''q10'', ''q11'']
                   [''ok'', ''ok'', ''ok'', ''ok'', ''ok'']
   \<and> length (chatHistory (snd (run (readyService (answering ''ok''))
                                    (map Ask elevenQuestions)))) = 10"
  using C5_history_bounded [of "()" "readyService (answering ''ok'')"
     "[Ask ''a'', Clear, Ask ''b'']"
     "readyService (answering ''ok'')" "''a''" okResult
     "(readyService (answering ''ok''))\<lparr>chatHistory := exchange ''a'' ''ok''\<rparr>"
     elevenQuestions
     "fst (run (readyService (answering ''ok'')) (map Ask elevenQuestions))"
     "snd (run (readyService (answering ''ok'')) (map Ask elevenQuestions))"]
  unfolding query_example run_example
  by (simp add: readyService_def answering_def query_def updateHistory_def slice_last_def
        formatHistory_def enumerate_eq_zip exchange_def clearHistory_def elevenQuestions_def
        okResult_def)

section \<open>Failure of the generation collaborator\<close>

text \<open>
  Claim C6. When the chain exists and its call throws, \<open>query\<close> fails with the very error
  the collaborator threw, so with its message, and the conversation history is the one
  from before the query: no turn was pushed. Through the HTTP handler the request is
  answered 500 with that message, and the history is unchanged as well.
\<close>

theorem C6_generation_failure:
  assumes "chain svc = Some ch"
    and "ch question (formatHistory (chatHistory svc)) (world svc) = (Inl err, w')"
  shows "query svc question = (Inl err, svc\<lparr>world := w'\<rparr>)
    \<and> chatHistory (snd (query svc question)) = chatHistory svc
    \<and> snapshot (snd (query svc question)) = snapshot svc
    \<and> (isInitialized srv \<and> ragService srv = svc \<and> question \<noteq> []
          \<and> property (req_body req) ''message'' = Some (JString question) \<longrightarrow>
        res_status (fst (chatHandler srv req)) = 500
        \<and> res_body (fst (chatHandler srv req))
            = JObject [(''error'', JString (if message_of err \<noteq> [] then message_of err
                                             else ''Internal server error''))]
        \<and> chatHistory (ragService (snd (chatHandler srv req))) = chatHistory svc)"
proof -
  have q: "query svc question = (Inl err, svc\<lparr>world := w'\<rparr>)"
    using assms by (simp add: query_def)
  then show ?thesis by (simp add: snapshot_def chatHandler_def Let_def)
qed

theorem C6_generation_failure_witness:
  "chain brokenService = Some (throwing ''boom'')
   \<and> query brokenService ''why?'' = (Inl (Error ''boom''), brokenService)
   \<and> chatHistory (snd (query brokenService ''why?'')) = exchange ''q0'' ''a0''
   \<and> fst (chatHandler (readyServer brokenService) (chatRequest (JString ''why?'')))
       = \<lparr>res_status = 500, res_body = JObject [(''error'', JString ''boom'')]\<rparr>"
  using C6_generation_failure [of brokenService "throwing ''boom''" "''why?''"
      "Error ''boom''" "()" "readyServer brokenService" "chatRequest (JString ''why?'')"]
  by (simp add: brokenService_def readyService_def throwing_def readyServer_def chatRequest_def
        property_def chatHandler_def query_def)

section \<open>Requests before the service is ready\<close>

text \<open>
  Claim C7. While \<open>isInitialized\<close> is false the chat handler answers 503 with a body
  holding \<open>error\<close> and \<open>initError\<close> (the recorded initialization error, or null), and
  the server, with its service and the world behind it, is left as it was: \<open>query\<close> is
  not called. A service without a chain fails a query with the not-initialized error.
  The server starts not initialized and without chain, and a failed initialization
  leaves it so, with store and chain untouched and the error message recorded.
\<close>

theorem C7_not_ready:
  "(\<not> isInitialized srv \<longrightarrow>
      chatHandler srv req
        = (\<lparr>res_status = 503,
            res_body = JObject
              [(''error'', JString ''Service is still initializing. Please wait...''),
               (''initError'', jsonOpt (initializationError srv))]\<rparr>, srv))
   \<and> (chain svc = None \<longrightarrow>
        query svc question
          = (Inl (Error ''RAG system not initialized. Call initialize() first.''), svc))
   \<and> \<not> isInitialized (newServer w) \<and> chain (ragService (newServer w)) = None
   \<and> (fst (initialize co svc) = Inl err \<longrightarrow>
        chain (snd (initialize co svc)) = chain svc
        \<and> vectorStore (snd (initialize co svc)) = vectorStore svc)
   \<and> (\<not> isInitialized srv \<and> fst (initialize co (ragService srv)) = Inl err \<longrightarrow>
        \<not> isInitialized (startup co srv)
        \<and> initializationError (startup co srv) = Some (message_of err))"
  by (auto simp: chatHandler_def query_def newServer_def newService_def startup_def
      initialize_def split: prod.splits sum.splits if_splits)

theorem C7_not_ready_witness:
  "\<not> isInitialized (newServer () :: (unit, unit) server)
   \<and> chatHandler (newServer () :: (unit, unit) server) (chatRequest (JString ''hello''))
       = (\<lparr>res_status = 503,
           res_body = JObject
             [(''error'', JString ''Service is still initializing. Please wait...''),
              (''initError'', JNull)]\<rparr>, newServer ())
   \<and> chain (newService () :: (unit, unit) service) = None
   \<and> fst (query (newService () :: (unit, unit) service) ''hello'')
       = Inl (Error ''RAG system not initialized. Call initialize() first.'')
   \<and> fst (initialize failingFetch (ragService (newServer ()))) = Inl (Error ''ECONNREFUSED'')
   \<and> fst (chatHandler (startup failingFetch (newServer ())) (chatRequest (JString ''hello'')))
       = \<lparr>res_status = 503,
           res_body = JObject
             [(''error'', JString ''Service is still initializing. Please wait...''),
              (''initError'', JString ''ECONNREFUSED'')]\<rparr>"
  using C7_not_ready [of "newServer ()" "chatRequest (JString ''hello'')" "newService ()"
      "''hello''" "()" failingFetch "Error ''ECONNREFUSED''"]
  by (simp add: newServer_def newService_def failingFetch_def initialize_def
      fetchConfluencePages_def exampleEnv_def startup_def chatHandler_def query_def)

section \<open>Resetting the conversation\<close>

text \<open>
  Claim C8. From every conversation state, \<open>clearHistory\<close> leaves no turn (whatever the
  history held), applying it twice gives the same service as applying it once, and the
  snapshot taken right after it is the empty sequence. The handler of \<open>/api/clear\<close>
  resets the history of the server's service in the same way and answers 200.
\<close>

theorem C8_reset_clears_idempotent:
  "chatHistory (clearHistory svc) = []
   \<and> clearHistory (clearHistory svc) = clearHistory svc
   \<and> snapshot (clearHistory svc) = []
   \<and> snapshot (ragService (snd (clearHandler srv))) = []
   \<and> res_status (fst (clearHandler srv)) = 200"
  by (simp add: clearHistory_def snapshot_def clearHandler_def)

section \<open>Alternation of the turns\<close>

text \<open>
  Claim C9. Starting from the empty history, after any sequence of questions and resets
  the history is a sequence of user turns each followed by an assistant turn, so no two
  consecutive turns have the same role. A successful query pushes one user turn with
  the question and then one assistant turn with the answer, before the history is cut to
  its last 10 turns.
\<close>

theorem C9_turns_alternate:
  "(chatHistory svc0 = [] \<longrightarrow>
      alternates (chatHistory (snd (run svc0 evs))) \<and> paired (chatHistory (snd (run svc0 evs))))
   \<and> (query svc q = (Inr r, svc1) \<longrightarrow>
        chatHistory svc1
          = slice_last 10 (chatHistory svc @ [\<lparr>role = ''user'', content = q\<rparr>,
                                               \<lparr>role = ''assistant'', content = answer r\<rparr>]))"
proof (intro conjI impI)
  assume e: "chatHistory svc0 = []"
  then have p: "paired (chatHistory (snd (run svc0 evs)))"
    using run_paired [of svc0 evs] by simp
  then show "alternates (chatHistory (snd (run svc0 evs)))" by (rule paired_alternates)
  show "paired (chatHistory (snd (run svc0 evs)))" by (rule p)
next
  assume "query svc q = (Inr r, svc1)"
  then show "chatHistory svc1
          = slice_last 10 (chatHistory svc @ [\<lparr>role = ''user'', content = q\<rparr>,
                                               \<lparr>role = ''assistant'', content = answer r\<rparr>])"
    using query_history [of svc q] by (simp add: updateHistory_slice exchange_def)
qed

theorem C9_turns_alternate_witness:
  "chatHistory (readyService (answering ''ok'')) = []
   \<and> alternates (chatHistory (snd (run (readyService (answering ''ok''))
         [Ask ''a'', Ask ''b'', Clear, Ask ''c''])))
   \<and> chatHistory (snd (run (readyService (answering ''ok''))
         [Ask ''a'', Ask ''b'', Clear, Ask ''c''])) = exchange ''c'' ''ok''
   \<and> query (readyService (answering ''ok'')) ''a''
       = (Inr okResult, (readyService (answering ''ok''))\<lparr>chatHistory := exchange ''a'' ''ok''\<rparr>)"
  using C9_turns_alternate [of "readyService (answering ''ok'')"
     "[Ask ''a'', Ask ''b'', Clear, Ask ''c'']"
     "readyService (answering ''ok'')" "''a''" okResult
     "(readyService (answering ''ok''))\<lparr>chatHistory := exchange ''a'' ''ok''\<rparr>"]
  by (simp add: readyService_def answering_def query_def updateHistory_def slice_last_def
        formatHistory_def enumerate_eq_zip exchange_def clearHistory_def okResult_def)

section \<open>The empty message\<close>

text \<open>
  Claim C10, as stated, fails: a request whose message is the empty string, arriving
  before initialization has completed, is answered 503, not 400.
\<close>

theorem C10_counterexample:
  "property (req_body (chatRequest (JString ''''))) ''message'' = Some (JString '''')
   \<and> res_status (fst (chatHandler (newServer () :: (unit, unit) server)
                                   (chatRequest (JString '''')))) = 503"
  by (simp add: chatHandler_def newServer_def chatRequest_def property_def)

text \<open>
  Claim C10, amended. Once the server is initialized, a request whose message is the
  empty string is answered 400 with an error body and the server, and with it the
  service, is left as it was: \<open>query\<close> is not called. The empty string is of type string
  and is rejected by the falsiness test that also rejects a missing message.
\<close>

theorem C10_empty_message_rejected:
  assumes "isInitialized srv"
    and "property (req_body req) ''message'' = Some (JString '''')"
  shows "chatHandler srv req
           = (\<lparr>res_status = 400,
               res_body = JObject [(''error'', JString ''Message is required'')]\<rparr>, srv)
    \<and> falsy (property (req_body req) ''message'')
    \<and> typeof (property (req_body req) ''message'') = ''string''"
  using assms by (simp add: chatHandler_def)

theorem C10_empty_message_rejected_witness:
  "isInitialized (readyServer (readyService (answering ''ok'')))
   \<and> property (req_body (chatRequest (JString ''''))) ''message'' = Some (JString '''')
   \<and> chatHandler (readyServer (readyService (answering ''ok''))) (chatRequest (JString ''''))
       = (\<lparr>res_status = 400,
           res_body = JObject [(''error'', JString ''Message is required'')]\<rparr>,
          readyServer (readyService (answering ''ok'')))"
  using C10_empty_message_rejected [of "readyServer (readyService (answering ''ok''))"
      "chatRequest (JString '''')"]
  by (simp add: readyServer_def chatRequest_def property_def)

end
